theory Spec2Isabelle
  imports Main "HOL-Library.Word"
begin

section \<open>Collaborators of the dedup loop\<close>

subsection \<open>fsnotify events\<close>

text \<open>
  \<^verbatim>\<open>fsnotify.Op\<close> is a \<^verbatim>\<open>uint32\<close> bit mask whose named values are
  \<^verbatim>\<open>Create Op = 1 << iota\<close>, then \<^verbatim>\<open>Write\<close>, \<^verbatim>\<open>Remove\<close>, \<^verbatim>\<open>Rename\<close>, \<^verbatim>\<open>Chmod\<close>.
  The \<^verbatim>\<open>switch e.Op\<close> of the loop compares the whole word, so a mask with several bits
  set, or with none, takes the \<^verbatim>\<open>default\<close> branch.
\<close>

type_synonym Op = "32 word"

definition Create :: Op where "Create = 1"
definition Write :: Op where "Write = 2"
definition Remove :: Op where "Remove = 4"
definition Rename :: Op where "Rename = 8"
definition Chmod :: Op where "Chmod = 16"

record Event =
  Name :: string
  Op :: Op

subsection \<open>\<^verbatim>\<open>filepath.Base\<close> (Unix)\<close>

definition IsPathSeparator :: "char \<Rightarrow> bool" where
  "IsPathSeparator c = (c = CHR ''/'')"

text \<open>
  The empty path gives \<^verbatim>\<open>"."\<close>; trailing separators are stripped; what follows the last
  remaining separator is returned; a path of separators only gives \<^verbatim>\<open>"/"\<close>.
\<close>

definition filepath_Base :: "string \<Rightarrow> string" where
  "filepath_Base path =
     (if path = [] then ''.''
      else
        let stripped = rev (dropWhile IsPathSeparator (rev path));
            elem = rev (takeWhile (\<lambda>c. \<not> IsPathSeparator c) (rev stripped))
        in if elem = [] then ''/'' else elem)"

subsection \<open>Time\<close>

text \<open>
  A \<^verbatim>\<open>time.Time\<close> is the number of nanoseconds since Go's zero time (January 1, year 1,
  00:00 UTC), which is the value of \<^verbatim>\<open>var lastAdd time.Time\<close>. A \<^verbatim>\<open>time.Duration\<close> is an
  \<^verbatim>\<open>int64\<close> of nanoseconds and \<^verbatim>\<open>Time.Sub\<close> saturates at its two ends. The clock is an
  input: every call of \<^verbatim>\<open>time.Since\<close> and of \<^verbatim>\<open>time.Now\<close> is handed the reading it takes.
  The wall clock and the monotonic clock are taken to advance together.
\<close>

type_synonym Time = int
type_synonym Duration = int

definition zeroTime :: Time where "zeroTime = 0"

definition Second :: Duration where "Second = 1000000000"
definition Millisecond :: Duration where "Millisecond = 1000000"

text \<open>The Unix epoch, 1970-01-01, as a \<^typ>\<open>Time\<close>: \<^verbatim>\<open>unixToInternal\<close> seconds after the zero time.\<close>

definition unixEpoch :: Time where "unixEpoch = 62135596800 * Second"

definition waitDuration :: Duration where "waitDuration = 150 * Millisecond"

definition maxDuration :: Duration where "maxDuration = 2 ^ 63 - 1"
definition minDuration :: Duration where "minDuration = - (2 ^ 63)"

definition time_Sub :: "Time \<Rightarrow> Time \<Rightarrow> Duration" where
  "time_Sub t u =
     (let d = t - u
      in if maxDuration < d then maxDuration
         else if d < minDuration then minDuration
         else d)"

text \<open>\<^verbatim>\<open>time.Since(t)\<close>, with the clock reading it takes as first argument.\<close>

definition time_Since :: "Time \<Rightarrow> Time \<Rightarrow> Duration" where
  "time_Since now t = time_Sub now t"

subsection \<open>Channels\<close>

text \<open>
  A Go channel: the buffered values in arrival order, the capacity given to \<^verbatim>\<open>make\<close>
  and whether it has been closed. \<^verbatim>\<open>len(c)\<close> is the number of buffered values.
\<close>

record 'a chan =
  chan_buf :: "'a list"
  chan_cap :: nat
  chan_closed :: bool

definition make_chan :: "nat \<Rightarrow> 'a chan" where
  "make_chan n = \<lparr>chan_buf = [], chan_cap = n, chan_closed = False\<rparr>"

definition chan_len :: "'a chan \<Rightarrow> nat" where
  "chan_len c = length (chan_buf c)"

text \<open>
  A send panics on a closed channel, appends when there is room and blocks otherwise.
  On an unbuffered channel (capacity 0) it always blocks: the value is handed over only
  together with a receive, which the transition of the receiver models.
\<close>

datatype 'a send_result = Sent "'a chan" | SendBlocks | SendPanics

definition chan_send :: "'a \<Rightarrow> 'a chan \<Rightarrow> 'a send_result" where
  "chan_send x c =
     (if chan_closed c then SendPanics
      else if chan_len c < chan_cap c then Sent (c\<lparr>chan_buf := chan_buf c @ [x]\<rparr>)
      else SendBlocks)"

text \<open>
  A receive takes the oldest buffered value also after the close; on an empty channel it
  reports the end of the stream when the channel is closed and blocks otherwise.
\<close>

datatype 'a recv_result = Recvd 'a "'a chan" | RecvBlocks | RecvClosed

definition chan_recv :: "'a chan \<Rightarrow> 'a recv_result" where
  "chan_recv c =
     (case chan_buf c of
        x # xs \<Rightarrow> Recvd x (c\<lparr>chan_buf := xs\<rparr>)
      | [] \<Rightarrow> if chan_closed c then RecvClosed else RecvBlocks)"

text \<open>\<^verbatim>\<open>close(c)\<close> panics on a closed channel: \<open>None\<close>.\<close>

definition chan_close :: "'a chan \<Rightarrow> 'a chan option" where
  "chan_close c = (if chan_closed c then None else Some (c\<lparr>chan_closed := True\<rparr>))"

section \<open>The dedup loop\<close>

text \<open>
  The package has two variants of the loop. Names ending in \<open>_E\<close> belong to
  \<^verbatim>\<open>dedupWriteEvents\<close>, whose loop relays errors and closes its own queues; names ending in
  \<open>_W\<close> belong to \<^verbatim>\<open>dedupWriteEventsWatcher\<close>, whose queue is closed by \<^verbatim>\<open>Close\<close>.
\<close>

text \<open>An \<^verbatim>\<open>error\<close> value of the raw source; \<^verbatim>\<open>nil\<close> is what a closed error channel yields.\<close>

datatype error = ErrNil | Err string

text \<open>
  Where the goroutine of the loop stands: at the receive from the raw source, at one of
  its sends, in the drain loops of \<^verbatim>\<open>close\<close>, or returned.
\<close>

datatype pc =
    AtRecv
  | AtSendErr error
  | AtSendSynth Event
  | AtSendOrig Event
  | AtDrainEvents
  | AtDrainErrors
  | Returned

text \<open>
  The body of both loops from the filename test to the end of the \<^verbatim>\<open>switch\<close> (lines 67-89
  of \<^verbatim>\<open>dedupWriteEventsWatcher.dedupLoop\<close>, and the same text in
  \<^verbatim>\<open>dedupWriteEvents.dedupLoop\<close>): the new \<^verbatim>\<open>lastAdd\<close> and the statement the goroutine
  reaches next. \<open>t_since\<close> is the clock read by \<^verbatim>\<open>time.Since\<close>, \<open>t_now\<close> the clock read by
  \<^verbatim>\<open>time.Now\<close>.
\<close>

definition onEvent ::
  "string \<Rightarrow> Event chan \<Rightarrow> Time \<Rightarrow> Event \<Rightarrow> Time \<Rightarrow> Time \<Rightarrow> Time \<times> pc" where
  "onEvent name events la e t_since t_now =
     (if filepath_Base (Name e) \<noteq> name then (la, AtRecv)
      else if Op e = Write then
        (if 0 < chan_len events \<or> time_Since t_since la < waitDuration
         then (la, AtRecv)
         else (t_now, AtSendOrig e))
      else if Op e = Create then (la, AtSendSynth e)
      else (la, AtSendOrig e))"

text \<open>
  What the scheduler and the environment can do next. The raw source hands the loop an
  event (with the two clock readings the \<^verbatim>\<open>Write\<close> branch may take), an error, or the
  closure of its event channel; \<open>Proceed\<close> lets the goroutine of the loop execute the
  statement it stands at, with the clock reading a \<^verbatim>\<open>time.Now\<close> there takes; the consumer
  receives from an output queue; \<^verbatim>\<open>Close\<close> of the watcher variant is called and proceeds.
\<close>

datatype action =
    Raw_Event Event Time Time
  | Raw_Error error
  | Raw_Closed
  | Proceed Time
  | Consumer_Events
  | Consumer_Errors
  | Call_Close
  | Close_Proceed

subsection \<open>\<^verbatim>\<open>dedupWriteEvents\<close>: the loop closes its own queues\<close>

record dedupWriteEvents =
  logFileName :: string
  Events :: "Event chan"
  Errors :: "error chan"

definition newDedupWriteEvents :: "string \<Rightarrow> dedupWriteEvents" where
  "newDedupWriteEvents logfileName =
     \<lparr>logFileName = logfileName, Events = make_chan 4, Errors = make_chan 0\<rparr>"

text \<open>
  The struct, the local \<^verbatim>\<open>lastAdd\<close> and the position of the goroutine, whether the
  program has panicked (a send on a closed channel, a close of a closed channel), and
  what the consumer has received so far from each queue.
\<close>

record state_E =
  de :: dedupWriteEvents
  lastAdd :: Time
  pc :: pc
  panicked :: bool
  read_events :: "Event list"
  read_errors :: "error list"

definition start_E :: "string \<Rightarrow> state_E" where
  "start_E logfileName =
     \<lparr>de = newDedupWriteEvents logfileName, lastAdd = zeroTime, pc = AtRecv,
      panicked = False, read_events = [], read_errors = []\<rparr>"

text \<open>
  \<^verbatim>\<open>dedupWriteEvents.close\<close>, one statement at a time: entered from the loop it runs
  \<^verbatim>\<open>close(de.Events)\<close>; each round of \<^verbatim>\<open>for range de.Events\<close> takes one buffered event and
  drops it; when that loop ends it runs \<^verbatim>\<open>close(de.Errors)\<close>; \<^verbatim>\<open>for range de.Errors\<close> ends
  likewise and the function returns.
\<close>

definition close :: "state_E \<Rightarrow> state_E option" where
  "close s =
     (case pc s of
        AtRecv \<Rightarrow>
          (case chan_close (Events (de s)) of
             None \<Rightarrow> Some (s\<lparr>panicked := True\<rparr>)
           | Some c \<Rightarrow> Some (s\<lparr>de := (de s)\<lparr>Events := c\<rparr>, pc := AtDrainEvents\<rparr>))
      | AtDrainEvents \<Rightarrow>
          (case chan_recv (Events (de s)) of
             Recvd x c \<Rightarrow> Some (s\<lparr>de := (de s)\<lparr>Events := c\<rparr>\<rparr>)
           | RecvBlocks \<Rightarrow> None
           | RecvClosed \<Rightarrow>
               (case chan_close (Errors (de s)) of
                  None \<Rightarrow> Some (s\<lparr>panicked := True\<rparr>)
                | Some c \<Rightarrow> Some (s\<lparr>de := (de s)\<lparr>Errors := c\<rparr>, pc := AtDrainErrors\<rparr>)))
      | AtDrainErrors \<Rightarrow>
          (case chan_recv (Errors (de s)) of
             Recvd x c \<Rightarrow> Some (s\<lparr>de := (de s)\<lparr>Errors := c\<rparr>\<rparr>)
           | RecvBlocks \<Rightarrow> None
           | RecvClosed \<Rightarrow> Some (s\<lparr>pc := Returned\<rparr>))
      | _ \<Rightarrow> None)"

text \<open>
  \<^verbatim>\<open>dedupWriteEvents.dedupLoop\<close> with its deferred \<^verbatim>\<open>close\<close>. The \<^verbatim>\<open>select\<close> takes an error,
  an event or the closure of \<^verbatim>\<open>w.Events\<close>; on the closure the function returns, which
  runs \<^verbatim>\<open>close\<close>. The send on the unbuffered \<^verbatim>\<open>Errors\<close> completes in the consumer's
  receive.
\<close>

definition dedupLoop :: "state_E \<Rightarrow> action \<Rightarrow> state_E option" where
  "dedupLoop s a =
     (case pc s of
        AtRecv \<Rightarrow>
          (case a of
             Raw_Error err \<Rightarrow> Some (s\<lparr>pc := AtSendErr err\<rparr>)
           | Raw_Event e t_since t_now \<Rightarrow>
               (case onEvent (logFileName (de s)) (Events (de s)) (lastAdd s) e t_since t_now of
                  (la, p) \<Rightarrow> Some (s\<lparr>lastAdd := la, pc := p\<rparr>))
           | Raw_Closed \<Rightarrow> close s
           | _ \<Rightarrow> None)
      | AtSendErr err \<Rightarrow>
          (case a of
             Proceed t \<Rightarrow>
               if chan_closed (Errors (de s)) then Some (s\<lparr>panicked := True\<rparr>) else None
           | _ \<Rightarrow> None)
      | AtSendSynth e \<Rightarrow>
          (case a of
             Proceed t \<Rightarrow>
               (case chan_send \<lparr>Name = Name e, Op = Write\<rparr> (Events (de s)) of
                  Sent c \<Rightarrow>
                    Some (s\<lparr>de := (de s)\<lparr>Events := c\<rparr>, lastAdd := t, pc := AtSendOrig e\<rparr>)
                | SendBlocks \<Rightarrow> None
                | SendPanics \<Rightarrow> Some (s\<lparr>panicked := True\<rparr>))
           | _ \<Rightarrow> None)
      | AtSendOrig e \<Rightarrow>
          (case a of
             Proceed t \<Rightarrow>
               (case chan_send e (Events (de s)) of
                  Sent c \<Rightarrow> Some (s\<lparr>de := (de s)\<lparr>Events := c\<rparr>, pc := AtRecv\<rparr>)
                | SendBlocks \<Rightarrow> None
                | SendPanics \<Rightarrow> Some (s\<lparr>panicked := True\<rparr>))
           | _ \<Rightarrow> None)
      | AtDrainEvents \<Rightarrow> (case a of Proceed t \<Rightarrow> close s | _ \<Rightarrow> None)
      | AtDrainErrors \<Rightarrow> (case a of Proceed t \<Rightarrow> close s | _ \<Rightarrow> None)
      | Returned \<Rightarrow> None)"

text \<open>
  The consumer's receive from \<^verbatim>\<open>Events\<close>: the oldest buffered event, or the end of the
  stream (the state stays as it is), or it blocks.
\<close>

definition consumer_Events :: "state_E \<Rightarrow> state_E option" where
  "consumer_Events s =
     (case chan_recv (Events (de s)) of
        Recvd x c \<Rightarrow> Some (s\<lparr>de := (de s)\<lparr>Events := c\<rparr>, read_events := read_events s @ [x]\<rparr>)
      | RecvBlocks \<Rightarrow> None
      | RecvClosed \<Rightarrow> Some s)"

text \<open>
  The consumer's receive from \<^verbatim>\<open>Errors\<close>: where it would block and the loop stands at
  \<^verbatim>\<open>de.Errors <- err\<close>, the two meet and the loop goes on.
\<close>

definition consumer_Errors :: "state_E \<Rightarrow> state_E option" where
  "consumer_Errors s =
     (case chan_recv (Errors (de s)) of
        Recvd x c \<Rightarrow> Some (s\<lparr>de := (de s)\<lparr>Errors := c\<rparr>, read_errors := read_errors s @ [x]\<rparr>)
      | RecvClosed \<Rightarrow> Some s
      | RecvBlocks \<Rightarrow>
          (case pc s of
             AtSendErr err \<Rightarrow> Some (s\<lparr>pc := AtRecv, read_errors := read_errors s @ [err]\<rparr>)
           | _ \<Rightarrow> None))"

text \<open>
  One step of the system; \<open>None\<close> when the action cannot happen in this state. A panic
  ends the program.
\<close>

definition step_E :: "state_E \<Rightarrow> action \<Rightarrow> state_E option" where
  "step_E s a =
     (if panicked s then None
      else case a of
             Consumer_Events \<Rightarrow> consumer_Events s
           | Consumer_Errors \<Rightarrow> consumer_Errors s
           | Call_Close \<Rightarrow> None
           | Close_Proceed \<Rightarrow> None
           | _ \<Rightarrow> dedupLoop s a)"

fun run_E :: "state_E \<Rightarrow> action list \<Rightarrow> state_E option" where
  "run_E s [] = Some s"
| "run_E s (a # as) = (case step_E s a of None \<Rightarrow> None | Some s' \<Rightarrow> run_E s' as)"

subsection \<open>\<^verbatim>\<open>dedupWriteEventsWatcher\<close>: \<^verbatim>\<open>Close\<close> closes the queue\<close>

record dedupWriteEventsWatcher =
  logFileName_W :: string
  Events_W :: "Event chan"
  done_W :: "unit chan"

definition newDedupWriteEventsWatcher :: "string \<Rightarrow> dedupWriteEventsWatcher" where
  "newDedupWriteEventsWatcher logfileName =
     \<lparr>logFileName_W = logfileName, Events_W = make_chan 4, done_W = make_chan 0\<rparr>"

text \<open>Where a call of \<^verbatim>\<open>Close\<close> stands.\<close>

datatype close_pc = NotCalled | AtWaitDone | AtDrainClose | CloseReturned

record state_W =
  de_W :: dedupWriteEventsWatcher
  lastAdd_W :: Time
  pc_W :: pc
  panicked_W :: bool
  close_pc :: close_pc
  close_calls :: nat
  read_events_W :: "Event list"

definition start_W :: "string \<Rightarrow> state_W" where
  "start_W logfileName =
     \<lparr>de_W = newDedupWriteEventsWatcher logfileName, lastAdd_W = zeroTime, pc_W = AtRecv,
      panicked_W = False, close_pc = NotCalled, close_calls = 0, read_events_W = []\<rparr>"

text \<open>
  \<^verbatim>\<open>dedupWriteEventsWatcher.dedupLoop\<close>: the \<^verbatim>\<open>range\<close> over \<^verbatim>\<open>Watcher.Events\<close> ends on its
  closure and the deferred \<^verbatim>\<open>close(de.done)\<close> runs.
\<close>

definition dedupLoop_W :: "state_W \<Rightarrow> action \<Rightarrow> state_W option" where
  "dedupLoop_W s a =
     (case pc_W s of
        AtRecv \<Rightarrow>
          (case a of
             Raw_Event e t_since t_now \<Rightarrow>
               (case onEvent (logFileName_W (de_W s)) (Events_W (de_W s)) (lastAdd_W s)
                       e t_since t_now of
                  (la, p) \<Rightarrow> Some (s\<lparr>lastAdd_W := la, pc_W := p\<rparr>))
           | Raw_Closed \<Rightarrow>
               (case chan_close (done_W (de_W s)) of
                  None \<Rightarrow> Some (s\<lparr>panicked_W := True\<rparr>)
                | Some c \<Rightarrow> Some (s\<lparr>de_W := (de_W s)\<lparr>done_W := c\<rparr>, pc_W := Returned\<rparr>))
           | _ \<Rightarrow> None)
      | AtSendSynth e \<Rightarrow>
          (case a of
             Proceed t \<Rightarrow>
               (case chan_send \<lparr>Name = Name e, Op = Write\<rparr> (Events_W (de_W s)) of
                  Sent c \<Rightarrow>
                    Some (s\<lparr>de_W := (de_W s)\<lparr>Events_W := c\<rparr>, lastAdd_W := t,
                            pc_W := AtSendOrig e\<rparr>)
                | SendBlocks \<Rightarrow> None
                | SendPanics \<Rightarrow> Some (s\<lparr>panicked_W := True\<rparr>))
           | _ \<Rightarrow> None)
      | AtSendOrig e \<Rightarrow>
          (case a of
             Proceed t \<Rightarrow>
               (case chan_send e (Events_W (de_W s)) of
                  Sent c \<Rightarrow> Some (s\<lparr>de_W := (de_W s)\<lparr>Events_W := c\<rparr>, pc_W := AtRecv\<rparr>)
                | SendBlocks \<Rightarrow> None
                | SendPanics \<Rightarrow> Some (s\<lparr>panicked_W := True\<rparr>))
           | _ \<Rightarrow> None)
      | _ \<Rightarrow> None)"

text \<open>
  \<^verbatim>\<open>dedupWriteEventsWatcher.Close\<close>. A call closes the raw watcher and waits at
  \<^verbatim>\<open><-de.done\<close>; once that receive returns it closes \<^verbatim>\<open>Events\<close> and drains it. A call made
  after an earlier one has returned runs the same statements again; calls that overlap
  are not modelled.
\<close>

definition Close :: "state_W \<Rightarrow> action \<Rightarrow> state_W option" where
  "Close s a =
     (case a of
        Call_Close \<Rightarrow>
          (if close_pc s = NotCalled \<or> close_pc s = CloseReturned
           then Some (s\<lparr>close_pc := AtWaitDone, close_calls := Suc (close_calls s)\<rparr>)
           else None)
      | Close_Proceed \<Rightarrow>
          (case close_pc s of
             AtWaitDone \<Rightarrow>
               (case chan_recv (done_W (de_W s)) of
                  RecvBlocks \<Rightarrow> None
                | Recvd x d \<Rightarrow>
                    (case chan_close (Events_W (de_W s)) of
                       None \<Rightarrow> Some (s\<lparr>panicked_W := True\<rparr>)
                     | Some c \<Rightarrow>
                         Some (s\<lparr>de_W := (de_W s)\<lparr>Events_W := c, done_W := d\<rparr>,
                                 close_pc := AtDrainClose\<rparr>))
                | RecvClosed \<Rightarrow>
                    (case chan_close (Events_W (de_W s)) of
                       None \<Rightarrow> Some (s\<lparr>panicked_W := True\<rparr>)
                     | Some c \<Rightarrow>
                         Some (s\<lparr>de_W := (de_W s)\<lparr>Events_W := c\<rparr>, close_pc := AtDrainClose\<rparr>)))
           | AtDrainClose \<Rightarrow>
               (case chan_recv (Events_W (de_W s)) of
                  Recvd x c \<Rightarrow> Some (s\<lparr>de_W := (de_W s)\<lparr>Events_W := c\<rparr>\<rparr>)
                | RecvBlocks \<Rightarrow> None
                | RecvClosed \<Rightarrow> Some (s\<lparr>close_pc := CloseReturned\<rparr>))
           | _ \<Rightarrow> None)
      | _ \<Rightarrow> None)"

definition consumer_Events_W :: "state_W \<Rightarrow> state_W option" where
  "consumer_Events_W s =
     (case chan_recv (Events_W (de_W s)) of
        Recvd x c \<Rightarrow>
          Some (s\<lparr>de_W := (de_W s)\<lparr>Events_W := c\<rparr>, read_events_W := read_events_W s @ [x]\<rparr>)
      | RecvBlocks \<Rightarrow> None
      | RecvClosed \<Rightarrow> Some s)"

definition step_W :: "state_W \<Rightarrow> action \<Rightarrow> state_W option" where
  "step_W s a =
     (if panicked_W s then None
      else case a of
             Consumer_Events \<Rightarrow> consumer_Events_W s
           | Consumer_Errors \<Rightarrow> None
           | Call_Close \<Rightarrow> Close s a
           | Close_Proceed \<Rightarrow> Close s a
           | _ \<Rightarrow> dedupLoop_W s a)"

fun run_W :: "state_W \<Rightarrow> action list \<Rightarrow> state_W option" where
  "run_W s [] = Some s"
| "run_W s (a # as) = (case step_W s a of None \<Rightarrow> None | Some s' \<Rightarrow> run_W s' as)"

section \<open>Reachable states\<close>

text \<open>The positions inside the \<^verbatim>\<open>for\<close> loop, where the goroutine still produces.\<close>

fun in_loop :: "pc \<Rightarrow> bool" where
  "in_loop AtRecv = True"
| "in_loop (AtSendErr err) = True"
| "in_loop (AtSendSynth e) = True"
| "in_loop (AtSendOrig e) = True"
| "in_loop AtDrainEvents = False"
| "in_loop AtDrainErrors = False"
| "in_loop Returned = False"

text \<open>What holds in every state the self-closing variant reaches from \<open>start_E n\<close>.\<close>

definition inv_E :: "string \<Rightarrow> state_E \<Rightarrow> bool" where
  "inv_E n s \<longleftrightarrow>
     logFileName (de s) = n \<and>
     chan_cap (Events (de s)) = 4 \<and>
     length (chan_buf (Events (de s))) \<le> 4 \<and>
     chan_cap (Errors (de s)) = 0 \<and>
     chan_buf (Errors (de s)) = [] \<and>
     \<not> panicked s \<and>
     (chan_closed (Events (de s)) \<longleftrightarrow> \<not> in_loop (pc s)) \<and>
     (chan_closed (Errors (de s)) \<longleftrightarrow> pc s = AtDrainErrors \<or> pc s = Returned) \<and>
     (pc s = AtDrainErrors \<or> pc s = Returned \<longrightarrow> chan_buf (Events (de s)) = [])"

text \<open>What holds in every state the watcher variant reaches from \<open>start_W n\<close>.\<close>

definition inv_W :: "string \<Rightarrow> state_W \<Rightarrow> bool" where
  "inv_W n w \<longleftrightarrow>
     logFileName_W (de_W w) = n \<and>
     chan_cap (Events_W (de_W w)) = 4 \<and>
     length (chan_buf (Events_W (de_W w))) \<le> 4 \<and>
     chan_cap (done_W (de_W w)) = 0 \<and>
     chan_buf (done_W (de_W w)) = [] \<and>
     (chan_closed (done_W (de_W w)) \<longleftrightarrow> pc_W w = Returned) \<and>
     (panicked_W w \<longrightarrow> pc_W w = Returned \<and> close_pc w = AtWaitDone) \<and>
     (close_pc w = NotCalled \<longleftrightarrow> close_calls w = 0) \<and>
     (chan_closed (Events_W (de_W w)) \<longrightarrow> chan_closed (done_W (de_W w))) \<and>
     (close_pc w = AtDrainClose \<or> close_pc w = CloseReturned \<longrightarrow>
        chan_closed (Events_W (de_W w)) \<and> pc_W w = Returned) \<and>
     (close_pc w = CloseReturned \<longrightarrow> chan_buf (Events_W (de_W w)) = []) \<and>
     (close_calls w \<le> 1 \<longrightarrow>
        \<not> panicked_W w \<and>
        (chan_closed (Events_W (de_W w)) \<longrightarrow>
           close_pc w = AtDrainClose \<or> close_pc w = CloseReturned))"

text \<open>
  The events forwarded so far, as long as no drain loop has run: those the consumer has
  read, then those still buffered.
\<close>

definition forwarded_E :: "state_E \<Rightarrow> Event list" where
  "forwarded_E s = read_events s @ chan_buf (Events (de s))"

definition forwarded_W :: "state_W \<Rightarrow> Event list" where
  "forwarded_W w = read_events_W w @ chan_buf (Events_W (de_W w))"


section \<open>Example inputs\<close>

abbreviation ex_write :: Event where
  "ex_write \<equiv> \<lparr>Name = ''/var/log/pods/0.log'', Op = Write\<rparr>"

abbreviation ex_create :: Event where
  "ex_create \<equiv> \<lparr>Name = ''/var/log/pods/0.log'', Op = Create\<rparr>"

abbreviation ex_remove :: Event where
  "ex_remove \<equiv> \<lparr>Name = ''/var/log/pods/0.log'', Op = Remove\<rparr>"

abbreviation ex_other_file :: Event where
  "ex_other_file \<equiv> \<lparr>Name = ''/var/log/pods/1.log'', Op = Write\<rparr>"

text \<open>
  Three raw events \<open>e\<close> 10 ms apart, the first at \<open>t0\<close>, each handled at the instant it
  is delivered. For \<open>p\<close> = 0, 1 or 2 the consumer makes one receive after the first,
  second or third of them; for any other \<open>p\<close> it makes none.
\<close>

definition reads_at :: "nat \<Rightarrow> nat \<Rightarrow> action list" where
  "reads_at p i = (if p = i then [Consumer_Events] else [])"

definition three_writes :: "Event \<Rightarrow> Time \<Rightarrow> nat \<Rightarrow> action list" where
  "three_writes e t0 p =
     [Raw_Event e t0 t0, Proceed t0] @ reads_at p 0 @
     [Raw_Event e (t0 + 10 * Millisecond) (t0 + 10 * Millisecond)] @ reads_at p 1 @
     [Raw_Event e (t0 + 20 * Millisecond) (t0 + 20 * Millisecond)] @ reads_at p 2"

text \<open>
  The actions in which the loop takes a raw \<^verbatim>\<open>Write\<close> or \<^verbatim>\<open>Create\<close> event for the watch
  target \<open>n\<close>: the only ones that lead to an assignment to \<^verbatim>\<open>lastAdd\<close>.
\<close>

fun write_or_create_for :: "string \<Rightarrow> action \<Rightarrow> bool" where
  "write_or_create_for n (Raw_Event e t_since t_now) =
     (filepath_Base (Name e) = n \<and> (Op e = Write \<or> Op e = Create))"
| "write_or_create_for n (Raw_Error err) = False"
| "write_or_create_for n Raw_Closed = False"
| "write_or_create_for n (Proceed t) = False"
| "write_or_create_for n Consumer_Events = False"
| "write_or_create_for n Consumer_Errors = False"
| "write_or_create_for n Call_Close = False"
| "write_or_create_for n Close_Proceed = False"

section \<open>The invariants hold in every reachable state\<close>

lemmas chan_defs = make_chan_def chan_len_def chan_send_def chan_recv_def chan_close_def

lemma onEvent_cases:
  "onEvent n c la e t1 t2 = (la', p) \<Longrightarrow> p = AtRecv \<or> p = AtSendSynth e \<or> p = AtSendOrig e"
  by (auto simp: onEvent_def split: if_splits)

lemma inv_E_start: "inv_E n (start_E n)"
  by (simp add: inv_E_def start_E_def newDedupWriteEvents_def make_chan_def)

lemma inv_E_dedupLoop:
  assumes "inv_E n s" and "dedupLoop s a = Some s'"
  shows "inv_E n s'"
proof (cases "pc s")
  case AtRecv
  with assms show ?thesis
    by (cases a) (auto simp: inv_E_def dedupLoop_def close_def chan_defs dest!: onEvent_cases
        split: prod.splits if_splits)
next
  case (AtSendErr err)
  with assms show ?thesis
    by (cases a) (auto simp: inv_E_def dedupLoop_def close_def chan_defs split: if_splits)
next
  case (AtSendSynth e)
  with assms show ?thesis
    by (cases a) (auto simp: inv_E_def dedupLoop_def close_def chan_defs split: if_splits)
next
  case (AtSendOrig e)
  with assms show ?thesis
    by (cases a) (auto simp: inv_E_def dedupLoop_def close_def chan_defs split: if_splits)
next
  case AtDrainEvents
  with assms show ?thesis
    by (cases a) (auto simp: inv_E_def dedupLoop_def close_def chan_defs split: if_splits list.splits)
next
  case AtDrainErrors
  with assms show ?thesis
    by (cases a) (auto simp: inv_E_def dedupLoop_def close_def chan_defs split: if_splits list.splits)
next
  case Returned
  with assms show ?thesis by (simp add: dedupLoop_def)
qed

lemma inv_E_consumer_Events:
  "inv_E n s \<Longrightarrow> consumer_Events s = Some s' \<Longrightarrow> inv_E n s'"
  by (auto simp: inv_E_def consumer_Events_def chan_defs split: list.splits if_splits)

lemma inv_E_consumer_Errors:
  "inv_E n s \<Longrightarrow> consumer_Errors s = Some s' \<Longrightarrow> inv_E n s'"
  by (auto simp: inv_E_def consumer_Errors_def chan_defs split: list.splits if_splits pc.splits)

lemma inv_E_step: "inv_E n s \<Longrightarrow> step_E s a = Some s' \<Longrightarrow> inv_E n s'"
  by (cases a)
     (auto simp: step_E_def split: if_splits
           intro: inv_E_dedupLoop inv_E_consumer_Events inv_E_consumer_Errors)

lemma inv_E_run: "inv_E n s \<Longrightarrow> run_E s as = Some s' \<Longrightarrow> inv_E n s'"
proof (induction as arbitrary: s)
  case Nil
  then show ?case by simp
next
  case (Cons a as)
  then show ?case by (auto split: option.splits dest: inv_E_step)
qed

lemma reachable_E: "run_E (start_E n) as = Some s \<Longrightarrow> inv_E n s"
  using inv_E_run [OF inv_E_start] .

lemma inv_W_start: "inv_W n (start_W n)"
  by (simp add: inv_W_def start_W_def newDedupWriteEventsWatcher_def make_chan_def)

lemma inv_W_dedupLoop:
  assumes "inv_W n w" and "dedupLoop_W w a = Some w'"
  shows "inv_W n w'"
proof (cases "pc_W w")
  case AtRecv
  with assms show ?thesis
    unfolding inv_W_def dedupLoop_W_def chan_defs
    by (cases a) (clarsimp dest!: onEvent_cases split: prod.splits if_splits; fastforce)+
next
  case (AtSendSynth e)
  with assms show ?thesis
    unfolding inv_W_def dedupLoop_W_def chan_defs
    by (cases a) (clarsimp split: if_splits)+
next
  case (AtSendOrig e)
  with assms show ?thesis
    unfolding inv_W_def dedupLoop_W_def chan_defs
    by (cases a) (clarsimp split: if_splits)+
qed (use assms in \<open>simp_all add: dedupLoop_W_def\<close>)

lemma inv_W_consumer_Events:
  "inv_W n w \<Longrightarrow> consumer_Events_W w = Some w' \<Longrightarrow> inv_W n w'"
  unfolding inv_W_def consumer_Events_W_def chan_defs
  by (clarsimp split: list.splits if_splits)

lemma inv_W_Close:
  assumes "inv_W n w" and "Close w a = Some w'" and "\<not> panicked_W w"
  shows "inv_W n w'"
proof (cases "close_pc w")
  case NotCalled
  with assms show ?thesis
    unfolding inv_W_def Close_def
    by (cases a) (clarsimp split: if_splits)+
next
  case AtWaitDone
  with assms show ?thesis
    unfolding inv_W_def Close_def chan_defs
    by (cases a) (clarsimp split: if_splits list.splits)+
next
  case AtDrainClose
  with assms show ?thesis
    unfolding inv_W_def Close_def chan_defs
    by (cases a) (clarsimp split: if_splits list.splits)+
next
  case CloseReturned
  with assms show ?thesis
    unfolding inv_W_def Close_def
    by (cases a) (clarsimp split: if_splits)+
qed

lemma inv_W_step: "inv_W n w \<Longrightarrow> step_W w a = Some w' \<Longrightarrow> inv_W n w'"
  by (cases a)
     (auto simp: step_W_def split: if_splits
           intro: inv_W_dedupLoop inv_W_consumer_Events inv_W_Close)

lemma inv_W_run: "inv_W n w \<Longrightarrow> run_W w as = Some w' \<Longrightarrow> inv_W n w'"
proof (induction as arbitrary: w)
  case Nil
  then show ?case by simp
next
  case (Cons a as)
  then show ?case by (auto split: option.splits dest: inv_W_step)
qed

lemma reachable_W: "run_W (start_W n) as = Some w \<Longrightarrow> inv_W n w"
  using inv_W_run [OF inv_W_start] .

section \<open>Single transitions\<close>


lemma pc_same_E: "pc s = p \<Longrightarrow> s\<lparr>pc := p\<rparr> = s"
  by auto

lemma pc_same_W: "pc_W w = p \<Longrightarrow> w\<lparr>pc_W := p\<rparr> = w"
  by auto

lemmas step_E_defs =
  step_E_def dedupLoop_def close_def onEvent_def consumer_Events_def consumer_Errors_def

lemmas step_W_defs = step_W_def dedupLoop_W_def onEvent_def consumer_Events_W_def Close_def

text \<open>The definitions a run on concrete inputs unfolds.\<close>

lemmas eval_defs =
  start_E_def start_W_def newDedupWriteEvents_def newDedupWriteEventsWatcher_def
  step_E_defs step_W_def dedupLoop_W_def consumer_Events_W_def Close_def
  chan_defs filepath_Base_def IsPathSeparator_def
  Create_def Write_def Remove_def Rename_def Chmod_def
  time_Since_def time_Sub_def zeroTime_def waitDuration_def Millisecond_def Second_def
  unixEpoch_def maxDuration_def minDuration_def

lemma filtered_E:
  assumes "inv_E n s" "pc s = AtRecv" "filepath_Base (Name e) \<noteq> n"
  shows "step_E s (Raw_Event e t1 t2) = Some s"
  using assms by (simp add: inv_E_def step_E_defs pc_same_E)

lemma filtered_W:
  assumes "inv_W n w" "pc_W w = AtRecv" "filepath_Base (Name e) \<noteq> n"
  shows "step_W w (Raw_Event e t1 t2) = Some w"
  using assms by (auto simp add: inv_W_def step_W_defs pc_same_W)

section \<open>Events for other files\<close>

text \<open>
  C7. In every reachable state of either variant in which the loop takes a raw event
  whose base filename is not the watch target, the step leaves the whole state as it
  is: nothing is added to an output queue and \<^verbatim>\<open>lastAdd\<close> keeps its value, whatever the
  operation and the clock readings.
\<close>

theorem other_file_event_discarded:
  assumes "filepath_Base (Name e) \<noteq> n"
  shows "(run_E (start_E n) as = Some s \<and> pc s = AtRecv \<longrightarrow>
            step_E s (Raw_Event e t_since t_now) = Some s) \<and>
         (run_W (start_W n) bs = Some w \<and> pc_W w = AtRecv \<longrightarrow>
            step_W w (Raw_Event e t_since t_now) = Some w)"
  using assms by (auto intro: filtered_E filtered_W dest: reachable_E reachable_W)

theorem other_file_event_discarded_witness:
  "filepath_Base (Name ex_other_file) \<noteq> ''0.log'' \<and>
   run_E (start_E ''0.log'') [Raw_Event ex_remove 5 6, Proceed 7] =
     Some ((start_E ''0.log'')
       \<lparr>de := (newDedupWriteEvents ''0.log'')
          \<lparr>Events := \<lparr>chan_buf = [ex_remove], chan_cap = 4, chan_closed = False\<rparr>\<rparr>\<rparr>) \<and>
   step_E ((start_E ''0.log'')
       \<lparr>de := (newDedupWriteEvents ''0.log'')
          \<lparr>Events := \<lparr>chan_buf = [ex_remove], chan_cap = 4, chan_closed = False\<rparr>\<rparr>\<rparr>)
     (Raw_Event ex_other_file 8 9) =
     Some ((start_E ''0.log'')
       \<lparr>de := (newDedupWriteEvents ''0.log'')
          \<lparr>Events := \<lparr>chan_buf = [ex_remove], chan_cap = 4, chan_closed = False\<rparr>\<rparr>\<rparr>) \<and>
   run_W (start_W ''0.log'') [] = Some (start_W ''0.log'') \<and>
   step_W (start_W ''0.log'') (Raw_Event ex_other_file 8 9) = Some (start_W ''0.log'')"
  using other_file_event_discarded
    [where e = ex_other_file and n = "''0.log''"
       and as = "[Raw_Event ex_remove 5 6, Proceed 7]"
       and s = "(start_E ''0.log'')
         \<lparr>de := (newDedupWriteEvents ''0.log'')
            \<lparr>Events := \<lparr>chan_buf = [ex_remove], chan_cap = 4, chan_closed = False\<rparr>\<rparr>\<rparr>"
       and bs = "[]" and w = "start_W ''0.log''" and t_since = 8 and t_now = 9]
  by (simp add: eval_defs)

section \<open>Events for the watched file\<close>

lemma write_discard_E:
  assumes "pc s = AtRecv" "\<not> panicked s" "Op e = Write"
    and "0 < chan_len (Events (de s)) \<or> time_Since t1 (lastAdd s) < waitDuration"
  shows "step_E s (Raw_Event e t1 t2) = Some s"
  using assms by (auto simp add: step_E_defs pc_same_E)

lemma write_discard_W:
  assumes "pc_W w = AtRecv" "\<not> panicked_W w" "Op e = Write"
    and "0 < chan_len (Events_W (de_W w)) \<or> time_Since t1 (lastAdd_W w) < waitDuration"
  shows "step_W w (Raw_Event e t1 t2) = Some w"
  using assms by (auto simp add: step_W_defs pc_same_W)

lemma write_forward_E:
  assumes "inv_E n s" "pc s = AtRecv" "filepath_Base (Name e) = n" "Op e = Write"
    and "\<not> (0 < chan_len (Events (de s)) \<or> time_Since t1 (lastAdd s) < waitDuration)"
  shows "run_E s [Raw_Event e t1 t2, Proceed t] =
           Some (s\<lparr>de := (de s)\<lparr>Events := (Events (de s))\<lparr>chan_buf := [e]\<rparr>\<rparr>, lastAdd := t2\<rparr>)"
  using assms unfolding inv_E_def
  by (auto simp add: step_E_defs chan_defs intro!: state_E.equality)

lemma write_forward_W:
  assumes "inv_W n w" "pc_W w = AtRecv" "filepath_Base (Name e) = n" "Op e = Write"
    and "\<not> (0 < chan_len (Events_W (de_W w)) \<or> time_Since t1 (lastAdd_W w) < waitDuration)"
  shows "run_W w [Raw_Event e t1 t2, Proceed t] =
           Some (w\<lparr>de_W := (de_W w)\<lparr>Events_W := (Events_W (de_W w))\<lparr>chan_buf := [e]\<rparr>\<rparr>,
                   lastAdd_W := t2\<rparr>)"
proof -
  from assms(1,2) have facts: "logFileName_W (de_W w) = n" "chan_cap (Events_W (de_W w)) = 4"
    "\<not> chan_closed (Events_W (de_W w))" "\<not> panicked_W w"
    by (auto simp add: inv_W_def)
  with assms(2-5) show ?thesis
    by (auto simp add: step_W_defs chan_defs intro!: state_W.equality)
qed









subsection \<open>Write\<close>

text \<open>
  C1. In every reachable state of either variant in which the loop takes a raw \<^verbatim>\<open>Write\<close>
  event for the watch target: if the output event queue holds at least one unread item,
  or \<^verbatim>\<open>time.Since(lastAdd)\<close> is below the 150 ms of \<^verbatim>\<open>waitDuration\<close>, the step leaves the
  whole state as it is (nothing is forwarded, \<^verbatim>\<open>lastAdd\<close> keeps its value); otherwise the
  loop sends exactly that event, which is then the only one in the queue, and \<^verbatim>\<open>lastAdd\<close>
  is the reading \<^verbatim>\<open>time.Now\<close> took. The elapsed time is measured from \<^verbatim>\<open>lastAdd\<close>, which is
  written when a \<^verbatim>\<open>Write\<close> is forwarded and when the \<^verbatim>\<open>Write\<close> ahead of a \<^verbatim>\<open>Create\<close> has been
  sent.
\<close>

theorem write_event_debounced:
  assumes "filepath_Base (Name e) = n" and "Op e = Write"
  shows "(run_E (start_E n) as = Some s \<and> pc s = AtRecv \<longrightarrow>
            (if 0 < chan_len (Events (de s)) \<or> time_Since t_since (lastAdd s) < waitDuration
             then step_E s (Raw_Event e t_since t_now) = Some s
             else run_E s [Raw_Event e t_since t_now, Proceed t] =
                    Some (s\<lparr>de := (de s)\<lparr>Events := (Events (de s))\<lparr>chan_buf := [e]\<rparr>\<rparr>,
                            lastAdd := t_now\<rparr>))) \<and>
         (run_W (start_W n) bs = Some w \<and> pc_W w = AtRecv \<longrightarrow>
            (if 0 < chan_len (Events_W (de_W w)) \<or>
                time_Since t_since (lastAdd_W w) < waitDuration
             then step_W w (Raw_Event e t_since t_now) = Some w
             else run_W w [Raw_Event e t_since t_now, Proceed t] =
                    Some (w\<lparr>de_W := (de_W w)\<lparr>Events_W := (Events_W (de_W w))\<lparr>chan_buf := [e]\<rparr>\<rparr>,
                            lastAdd_W := t_now\<rparr>)))"
proof (intro conjI impI; elim conjE)
  assume r: "run_E (start_E n) as = Some s" and p: "pc s = AtRecv"
  from reachable_E [OF r] have i: "inv_E n s" .
  then have np: "\<not> panicked s" by (simp add: inv_E_def)
  show "if 0 < chan_len (Events (de s)) \<or> time_Since t_since (lastAdd s) < waitDuration
        then step_E s (Raw_Event e t_since t_now) = Some s
        else run_E s [Raw_Event e t_since t_now, Proceed t] =
               Some (s\<lparr>de := (de s)\<lparr>Events := (Events (de s))\<lparr>chan_buf := [e]\<rparr>\<rparr>,
                       lastAdd := t_now\<rparr>)"
    using write_discard_E [OF p np assms(2)] write_forward_E [OF i p assms]
    by auto
next
  assume r: "run_W (start_W n) bs = Some w" and p: "pc_W w = AtRecv"
  from reachable_W [OF r] have i: "inv_W n w" .
  with p have np: "\<not> panicked_W w" by (auto simp add: inv_W_def)
  show "if 0 < chan_len (Events_W (de_W w)) \<or> time_Since t_since (lastAdd_W w) < waitDuration
        then step_W w (Raw_Event e t_since t_now) = Some w
        else run_W w [Raw_Event e t_since t_now, Proceed t] =
               Some (w\<lparr>de_W := (de_W w)\<lparr>Events_W := (Events_W (de_W w))\<lparr>chan_buf := [e]\<rparr>\<rparr>,
                       lastAdd_W := t_now\<rparr>)"
    using write_discard_W [OF p np assms(2)] write_forward_W [OF i p assms]
    by auto
qed

theorem write_event_debounced_witness:
  "filepath_Base (Name ex_write) = ''0.log'' \<and> Op ex_write = Write \<and>
   run_E (start_E ''0.log'') [] = Some (start_E ''0.log'') \<and> pc (start_E ''0.log'') = AtRecv \<and>
   run_E (start_E ''0.log'')
     [Raw_Event ex_write (unixEpoch + 5) (unixEpoch + 6), Proceed (unixEpoch + 7)] =
     Some ((start_E ''0.log'')
       \<lparr>de := (newDedupWriteEvents ''0.log'')
          \<lparr>Events := \<lparr>chan_buf = [ex_write], chan_cap = 4, chan_closed = False\<rparr>\<rparr>,
        lastAdd := unixEpoch + 6\<rparr>) \<and>
   run_W (start_W ''0.log'') [Raw_Event ex_write unixEpoch unixEpoch, Proceed unixEpoch] =
     Some ((start_W ''0.log'')
       \<lparr>de_W := (newDedupWriteEventsWatcher ''0.log'')
          \<lparr>Events_W := \<lparr>chan_buf = [ex_write], chan_cap = 4, chan_closed = False\<rparr>\<rparr>,
        lastAdd_W := unixEpoch\<rparr>) \<and>
   step_W ((start_W ''0.log'')
       \<lparr>de_W := (newDedupWriteEventsWatcher ''0.log'')
          \<lparr>Events_W := \<lparr>chan_buf = [ex_write], chan_cap = 4, chan_closed = False\<rparr>\<rparr>,
        lastAdd_W := unixEpoch\<rparr>)
     (Raw_Event ex_write (unixEpoch + 5) (unixEpoch + 6)) =
     Some ((start_W ''0.log'')
       \<lparr>de_W := (newDedupWriteEventsWatcher ''0.log'')
          \<lparr>Events_W := \<lparr>chan_buf = [ex_write], chan_cap = 4, chan_closed = False\<rparr>\<rparr>,
        lastAdd_W := unixEpoch\<rparr>)"
  using write_event_debounced
    [where e = ex_write and n = "''0.log''" and as = "[]" and s = "start_E ''0.log''"
       and bs = "[Raw_Event ex_write unixEpoch unixEpoch, Proceed unixEpoch]"
       and w = "(start_W ''0.log'')
         \<lparr>de_W := (newDedupWriteEventsWatcher ''0.log'')
            \<lparr>Events_W := \<lparr>chan_buf = [ex_write], chan_cap = 4, chan_closed = False\<rparr>\<rparr>,
          lastAdd_W := unixEpoch\<rparr>"
       and t_since = "unixEpoch + 5" and t_now = "unixEpoch + 6" and t = "unixEpoch + 7"]
  by (simp add: eval_defs)
text \<open>Every clock reading from the Unix epoch on is more than 150 ms after the zero time.\<close>

lemma unixEpoch_after_wait: "zeroTime + waitDuration \<le> unixEpoch"
  by (simp add: zeroTime_def waitDuration_def Millisecond_def unixEpoch_def Second_def)

lemma lastAdd_zero_step_E:
  assumes "inv_E n s" "lastAdd s = zeroTime" "\<forall>e. pc s \<noteq> AtSendSynth e"
    "\<not> write_or_create_for n a" "step_E s a = Some s'"
  shows "lastAdd s' = zeroTime \<and> (\<forall>e. pc s' \<noteq> AtSendSynth e)"
proof (cases "pc s")
  case AtRecv
  with assms show ?thesis
    unfolding inv_E_def
    by (cases a) (auto simp add: step_E_defs chan_defs split: if_splits list.splits)
next
  case (AtSendSynth e)
  with assms show ?thesis by simp
qed (use assms in \<open>cases a; auto simp add: inv_E_def step_E_defs chan_defs
        split: if_splits list.splits\<close>)+

lemma lastAdd_zero_run_E:
  assumes "inv_E n s" "lastAdd s = zeroTime" "\<forall>e. pc s \<noteq> AtSendSynth e"
    "\<forall>a \<in> set as. \<not> write_or_create_for n a" "run_E s as = Some s'"
  shows "lastAdd s' = zeroTime"
  using assms
proof (induction as arbitrary: s)
  case Nil
  then show ?case by simp
next
  case (Cons a as)
  from Cons.prems(5) obtain s1 where st: "step_E s a = Some s1" and rn: "run_E s1 as = Some s'"
    by (auto split: option.splits)
  from Cons.prems(4) have na: "\<not> write_or_create_for n a"
    and nas: "\<forall>a \<in> set as. \<not> write_or_create_for n a" by simp_all
  from lastAdd_zero_step_E [OF Cons.prems(1-3) na st]
  have "lastAdd s1 = zeroTime" "\<forall>e. pc s1 \<noteq> AtSendSynth e" by simp_all
  with Cons.IH [OF inv_E_step [OF Cons.prems(1) st] _ _ nas rn] show ?case by simp
qed

lemma lastAdd_zero_step_W:
  assumes "inv_W n w" "lastAdd_W w = zeroTime" "\<forall>e. pc_W w \<noteq> AtSendSynth e"
    "\<not> write_or_create_for n a" "step_W w a = Some w'"
  shows "lastAdd_W w' = zeroTime \<and> (\<forall>e. pc_W w' \<noteq> AtSendSynth e)"
proof (cases "pc_W w")
  case AtRecv
  with assms show ?thesis
    unfolding inv_W_def
    by (cases a) (auto simp add: step_W_defs chan_defs split: if_splits list.splits close_pc.splits)
next
  case (AtSendSynth e)
  with assms show ?thesis by simp
qed (use assms in \<open>cases a; auto simp add: inv_W_def step_W_defs chan_defs
        split: if_splits list.splits close_pc.splits\<close>)+

lemma lastAdd_zero_run_W:
  assumes "inv_W n w" "lastAdd_W w = zeroTime" "\<forall>e. pc_W w \<noteq> AtSendSynth e"
    "\<forall>a \<in> set as. \<not> write_or_create_for n a" "run_W w as = Some w'"
  shows "lastAdd_W w' = zeroTime"
  using assms
proof (induction as arbitrary: w)
  case Nil
  then show ?case by simp
next
  case (Cons a as)
  from Cons.prems(5) obtain w1 where st: "step_W w a = Some w1" and rn: "run_W w1 as = Some w'"
    by (auto split: option.splits)
  from Cons.prems(4) have na: "\<not> write_or_create_for n a"
    and nas: "\<forall>a \<in> set as. \<not> write_or_create_for n a" by simp_all
  from lastAdd_zero_step_W [OF Cons.prems(1-3) na st]
  have "lastAdd_W w1 = zeroTime" "\<forall>e. pc_W w1 \<noteq> AtSendSynth e" by simp_all
  with Cons.IH [OF inv_W_step [OF Cons.prems(1) st] _ _ nas rn] show ?case by simp
qed

text \<open>
  C10, as stated, fails in both variants. A \<^verbatim>\<open>Create\<close> event for the target comes first:
  the loop sends the synthesized \<^verbatim>\<open>Write\<close>, sets \<^verbatim>\<open>lastAdd\<close> and sends the \<^verbatim>\<open>Create\<close>, and the
  consumer reads both. The very first raw \<^verbatim>\<open>Write\<close> for the target arrives 10 ms later
  on the empty queue and is dropped: \<^verbatim>\<open>lastAdd\<close> is no longer zero and less than 150 ms
  have passed.
\<close>

theorem first_write_after_create_counterexample:
  "run_E (start_E ''0.log'')
     [Raw_Event ex_create unixEpoch unixEpoch, Proceed unixEpoch, Proceed unixEpoch,
      Consumer_Events, Consumer_Events] =
     Some ((start_E ''0.log'')\<lparr>lastAdd := unixEpoch, read_events := [ex_write, ex_create]\<rparr>) \<and>
   chan_buf (Events (de ((start_E ''0.log'')
       \<lparr>lastAdd := unixEpoch, read_events := [ex_write, ex_create]\<rparr>))) = [] \<and>
   step_E ((start_E ''0.log'')\<lparr>lastAdd := unixEpoch, read_events := [ex_write, ex_create]\<rparr>)
     (Raw_Event ex_write (unixEpoch + 10 * Millisecond) (unixEpoch + 10 * Millisecond)) =
     Some ((start_E ''0.log'')\<lparr>lastAdd := unixEpoch, read_events := [ex_write, ex_create]\<rparr>) \<and>
   run_W (start_W ''0.log'')
     [Raw_Event ex_create unixEpoch unixEpoch, Proceed unixEpoch, Proceed unixEpoch,
      Consumer_Events, Consumer_Events] =
     Some ((start_W ''0.log'')
       \<lparr>lastAdd_W := unixEpoch, read_events_W := [ex_write, ex_create]\<rparr>) \<and>
   chan_buf (Events_W (de_W ((start_W ''0.log'')
       \<lparr>lastAdd_W := unixEpoch, read_events_W := [ex_write, ex_create]\<rparr>))) = [] \<and>
   step_W ((start_W ''0.log'')\<lparr>lastAdd_W := unixEpoch, read_events_W := [ex_write, ex_create]\<rparr>)
     (Raw_Event ex_write (unixEpoch + 10 * Millisecond) (unixEpoch + 10 * Millisecond)) =
     Some ((start_W ''0.log'')
       \<lparr>lastAdd_W := unixEpoch, read_events_W := [ex_write, ex_create]\<rparr>)"
  by (simp add: eval_defs)

text \<open>
  C10, amended. The very first \<^verbatim>\<open>Write\<close> event for the target file after construction,
  arriving when the output event queue is empty and before the loop has taken any
  \<^verbatim>\<open>Create\<close> event for the target, is forwarded however soon after the construction it
  arrives: without an earlier \<^verbatim>\<open>Write\<close> or \<^verbatim>\<open>Create\<close> for the target \<^verbatim>\<open>lastAdd\<close> still has its
  zero value, and \<^verbatim>\<open>time.Since\<close> of the zero time is not below \<^verbatim>\<open>waitDuration\<close>. The clock is
  taken to read at least 150 ms after the zero time (0001-01-01), which every reading
  from 1970 on does.
\<close>

theorem first_write_forwarded:
  assumes "filepath_Base (Name e) = n" and "Op e = Write"
    and "zeroTime + waitDuration \<le> t_since"
  shows "\<not> time_Since t_since zeroTime < waitDuration \<and>
         lastAdd (start_E n) = zeroTime \<and> lastAdd_W (start_W n) = zeroTime \<and>
         (run_E (start_E n) as = Some s \<and> (\<forall>a \<in> set as. \<not> write_or_create_for n a) \<longrightarrow>
            lastAdd s = zeroTime) \<and>
         (run_E (start_E n) as = Some s \<and> pc s = AtRecv \<and> lastAdd s = zeroTime \<and>
          chan_len (Events (de s)) = 0 \<longrightarrow>
            run_E s [Raw_Event e t_since t_now, Proceed t] =
              Some (s\<lparr>de := (de s)\<lparr>Events := (Events (de s))\<lparr>chan_buf := [e]\<rparr>\<rparr>,
                      lastAdd := t_now\<rparr>)) \<and>
         (run_W (start_W n) bs = Some w \<and> (\<forall>a \<in> set bs. \<not> write_or_create_for n a) \<longrightarrow>
            lastAdd_W w = zeroTime) \<and>
         (run_W (start_W n) bs = Some w \<and> pc_W w = AtRecv \<and> lastAdd_W w = zeroTime \<and>
          chan_len (Events_W (de_W w)) = 0 \<longrightarrow>
            run_W w [Raw_Event e t_since t_now, Proceed t] =
              Some (w\<lparr>de_W := (de_W w)\<lparr>Events_W := (Events_W (de_W w))\<lparr>chan_buf := [e]\<rparr>\<rparr>,
                      lastAdd_W := t_now\<rparr>))"
proof -
  from assms(3) have since: "\<not> time_Since t_since zeroTime < waitDuration"
    by (simp add: time_Since_def time_Sub_def zeroTime_def waitDuration_def Millisecond_def
        maxDuration_def minDuration_def Let_def)
  have "lastAdd s = zeroTime"
    if "run_E (start_E n) as = Some s" "\<forall>a \<in> set as. \<not> write_or_create_for n a"
    using lastAdd_zero_run_E [OF inv_E_start _ _ that(2,1)] by (simp add: start_E_def)
  moreover
  have "run_E s [Raw_Event e t_since t_now, Proceed t] =
          Some (s\<lparr>de := (de s)\<lparr>Events := (Events (de s))\<lparr>chan_buf := [e]\<rparr>\<rparr>, lastAdd := t_now\<rparr>)"
    if "run_E (start_E n) as = Some s" "pc s = AtRecv" "lastAdd s = zeroTime"
      "chan_len (Events (de s)) = 0"
    using write_forward_E [OF reachable_E [OF that(1)] that(2) assms(1,2)] that(3,4) since
    by simp
  moreover
  have "lastAdd_W w = zeroTime"
    if "run_W (start_W n) bs = Some w" "\<forall>a \<in> set bs. \<not> write_or_create_for n a"
    using lastAdd_zero_run_W [OF inv_W_start _ _ that(2,1)] by (simp add: start_W_def)
  moreover
  have "run_W w [Raw_Event e t_since t_now, Proceed t] =
          Some (w\<lparr>de_W := (de_W w)\<lparr>Events_W := (Events_W (de_W w))\<lparr>chan_buf := [e]\<rparr>\<rparr>,
                  lastAdd_W := t_now\<rparr>)"
    if "run_W (start_W n) bs = Some w" "pc_W w = AtRecv" "lastAdd_W w = zeroTime"
      "chan_len (Events_W (de_W w)) = 0"
    using write_forward_W [OF reachable_W [OF that(1)] that(2) assms(1,2)] that(3,4) since
    by simp
  ultimately show ?thesis
    using since by (simp add: start_E_def start_W_def)
qed

theorem first_write_forwarded_witness:
  "filepath_Base (Name ex_write) = ''0.log'' \<and> Op ex_write = Write \<and>
   zeroTime + waitDuration \<le> unixEpoch \<and>
   run_E (start_E ''0.log'')
     [Raw_Event ex_other_file 3 4, Raw_Event ex_remove 5 6, Proceed 7, Consumer_Events] =
     Some ((start_E ''0.log'')\<lparr>read_events := [ex_remove]\<rparr>) \<and>
   \<not> write_or_create_for ''0.log'' (Raw_Event ex_other_file 3 4) \<and>
   \<not> write_or_create_for ''0.log'' (Raw_Event ex_remove 5 6) \<and>
   \<not> write_or_create_for ''0.log'' (Proceed 7) \<and>
   \<not> write_or_create_for ''0.log'' Consumer_Events \<and>
   pc ((start_E ''0.log'')\<lparr>read_events := [ex_remove]\<rparr>) = AtRecv \<and>
   lastAdd ((start_E ''0.log'')\<lparr>read_events := [ex_remove]\<rparr>) = zeroTime \<and>
   chan_len (Events (de ((start_E ''0.log'')\<lparr>read_events := [ex_remove]\<rparr>))) = 0 \<and>
   run_E ((start_E ''0.log'')\<lparr>read_events := [ex_remove]\<rparr>)
     [Raw_Event ex_write unixEpoch (unixEpoch + 1), Proceed (unixEpoch + 2)] =
     Some ((start_E ''0.log'')
       \<lparr>de := (newDedupWriteEvents ''0.log'')
          \<lparr>Events := \<lparr>chan_buf = [ex_write], chan_cap = 4, chan_closed = False\<rparr>\<rparr>,
        lastAdd := unixEpoch + 1, read_events := [ex_remove]\<rparr>) \<and>
   run_W (start_W ''0.log'') [] = Some (start_W ''0.log'') \<and>
   run_W (start_W ''0.log'') [Raw_Event ex_write unixEpoch (unixEpoch + 1), Proceed (unixEpoch + 2)] =
     Some ((start_W ''0.log'')
       \<lparr>de_W := (newDedupWriteEventsWatcher ''0.log'')
          \<lparr>Events_W := \<lparr>chan_buf = [ex_write], chan_cap = 4, chan_closed = False\<rparr>\<rparr>,
        lastAdd_W := unixEpoch + 1\<rparr>)"
  using first_write_forwarded
    [where e = ex_write and n = "''0.log''" and t_since = unixEpoch
       and as = "[Raw_Event ex_other_file 3 4, Raw_Event ex_remove 5 6, Proceed 7,
                  Consumer_Events]"
       and s = "(start_E ''0.log'')\<lparr>read_events := [ex_remove]\<rparr>"
       and bs = "[]" and w = "start_W ''0.log''"
       and t_now = "unixEpoch + 1" and t = "unixEpoch + 2"]
  by (simp add: eval_defs)

subsection \<open>Create\<close>



subsection \<open>Remove, Rename, Chmod and every other operation\<close>



subsection \<open>Coalescing and the debounce window\<close>

lemma three_writes_E:
  assumes "filepath_Base (Name e) = n" and "Op e = Write" and "zeroTime + waitDuration \<le> t0"
  shows "run_E (start_E n) (three_writes e t0 p) =
           Some ((start_E n)
             \<lparr>de := (newDedupWriteEvents n)
                \<lparr>Events := \<lparr>chan_buf = (if p < 3 then [] else [e]), chan_cap = 4,
                             chan_closed = False\<rparr>\<rparr>,
              lastAdd := t0,
              read_events := (if p < 3 then [e] else [])\<rparr>)"
proof -
  consider "p = 0" | "p = 1" | "p = 2" | "3 \<le> p" by linarith
  then show ?thesis
    using assms
    by cases
       (simp_all add: three_writes_def reads_at_def start_E_def newDedupWriteEvents_def
          step_E_defs chan_defs time_Since_def time_Sub_def zeroTime_def waitDuration_def
          Millisecond_def maxDuration_def minDuration_def Let_def)
qed

lemma three_writes_W:
  assumes "filepath_Base (Name e) = n" and "Op e = Write" and "zeroTime + waitDuration \<le> t0"
  shows "run_W (start_W n) (three_writes e t0 p) =
           Some ((start_W n)
             \<lparr>de_W := (newDedupWriteEventsWatcher n)
                \<lparr>Events_W := \<lparr>chan_buf = (if p < 3 then [] else [e]), chan_cap = 4,
                               chan_closed = False\<rparr>\<rparr>,
              lastAdd_W := t0,
              read_events_W := (if p < 3 then [e] else [])\<rparr>)"
proof -
  consider "p = 0" | "p = 1" | "p = 2" | "3 \<le> p" by linarith
  then show ?thesis
    using assms
    by cases
       (simp_all add: three_writes_def reads_at_def start_W_def newDedupWriteEventsWatcher_def
          step_W_defs chan_defs time_Since_def time_Sub_def zeroTime_def waitDuration_def
          Millisecond_def maxDuration_def minDuration_def Let_def)
qed

lemma run_E_append:
  "run_E s (as @ bs) = (case run_E s as of None \<Rightarrow> None | Some s' \<Rightarrow> run_E s' bs)"
  by (induction as arbitrary: s) (auto split: option.splits)

lemma run_W_append:
  "run_W w (as @ bs) = (case run_W w as of None \<Rightarrow> None | Some w' \<Rightarrow> run_W w' bs)"
  by (induction as arbitrary: w) (auto split: option.splits)

lemma fourth_write_E:
  assumes "filepath_Base (Name e) = n" and "Op e = Write" and "zeroTime + waitDuration \<le> t0"
    and "t0 + waitDuration \<le> t3"
  shows "run_E (start_E n)
           (three_writes e t0 p @ [Raw_Event e t3 t3] @ (if p < 3 then [Proceed t3] else [])) =
           Some ((start_E n)
             \<lparr>de := (newDedupWriteEvents n)
                \<lparr>Events := \<lparr>chan_buf = [e], chan_cap = 4, chan_closed = False\<rparr>\<rparr>,
              lastAdd := (if p < 3 then t3 else t0),
              read_events := (if p < 3 then [e] else [])\<rparr>)"
  unfolding run_E_append three_writes_E [OF assms(1-3)]
  using assms
  by (simp add: start_E_def newDedupWriteEvents_def
        step_E_defs chan_defs time_Since_def time_Sub_def zeroTime_def waitDuration_def
        Millisecond_def maxDuration_def minDuration_def Let_def)

lemma fourth_write_W:
  assumes "filepath_Base (Name e) = n" and "Op e = Write" and "zeroTime + waitDuration \<le> t0"
    and "t0 + waitDuration \<le> t3"
  shows "run_W (start_W n)
           (three_writes e t0 p @ [Raw_Event e t3 t3] @ (if p < 3 then [Proceed t3] else [])) =
           Some ((start_W n)
             \<lparr>de_W := (newDedupWriteEventsWatcher n)
                \<lparr>Events_W := \<lparr>chan_buf = [e], chan_cap = 4, chan_closed = False\<rparr>\<rparr>,
              lastAdd_W := (if p < 3 then t3 else t0),
              read_events_W := (if p < 3 then [e] else [])\<rparr>)"
  unfolding run_W_append three_writes_W [OF assms(1-3)]
  using assms
  by (simp add: start_W_def newDedupWriteEventsWatcher_def
        step_W_defs chan_defs time_Since_def time_Sub_def zeroTime_def waitDuration_def
        Millisecond_def maxDuration_def minDuration_def Let_def)

text \<open>
  C9, as stated, fails: with target \<^verbatim>\<open>0.log\<close> and an empty queue, three \<^verbatim>\<open>Write\<close> events
  10 ms apart forward one \<^verbatim>\<open>Write\<close>; when the consumer has not read it, a fourth \<^verbatim>\<open>Write\<close>
  170 ms after that forward finds \<^verbatim>\<open>len(de.Events) > 0\<close> and is dropped: the loop is
  back at its receive and one \<^verbatim>\<open>Write\<close> has been forwarded in all, not two.
\<close>

theorem debounce_expiry_counterexample:
  "map_option forwarded_E
     (run_E (start_E ''0.log'')
        [Raw_Event ex_write unixEpoch unixEpoch, Proceed unixEpoch,
         Raw_Event ex_write (unixEpoch + 10 * Millisecond) (unixEpoch + 10 * Millisecond),
         Raw_Event ex_write (unixEpoch + 20 * Millisecond) (unixEpoch + 20 * Millisecond),
         Raw_Event ex_write (unixEpoch + 170 * Millisecond) (unixEpoch + 170 * Millisecond)]) =
     Some [ex_write] \<and>
   map_option pc
     (run_E (start_E ''0.log'')
        [Raw_Event ex_write unixEpoch unixEpoch, Proceed unixEpoch,
         Raw_Event ex_write (unixEpoch + 10 * Millisecond) (unixEpoch + 10 * Millisecond),
         Raw_Event ex_write (unixEpoch + 20 * Millisecond) (unixEpoch + 20 * Millisecond),
         Raw_Event ex_write (unixEpoch + 170 * Millisecond) (unixEpoch + 170 * Millisecond)]) =
     Some AtRecv"
  by (simp add: eval_defs forwarded_E_def)

text \<open>
  C9, amended. With the watch target \<open>n\<close>, an empty queue and the zero \<^verbatim>\<open>lastAdd\<close> of the
  start, three raw \<^verbatim>\<open>Write\<close> events for the target delivered 10 ms apart forward exactly
  one \<^verbatim>\<open>Write\<close>, whether and whenever the consumer reads it. A further \<^verbatim>\<open>Write\<close> delivered at
  least 150 ms after that forward is forwarded, two in all, when the consumer has read
  the first one by then, and is dropped, one in all, when the first one is still unread
  in the queue.
\<close>

theorem coalescing_then_debounce_expiry:
  assumes "filepath_Base (Name e) = n" and "Op e = Write" and "zeroTime + waitDuration \<le> t0"
    and "t0 + waitDuration \<le> t3"
  shows "map_option forwarded_E (run_E (start_E n) (three_writes e t0 p)) = Some [e] \<and>
         map_option forwarded_E
           (run_E (start_E n)
              (three_writes e t0 p @ [Raw_Event e t3 t3] @ (if p < 3 then [Proceed t3] else []))) =
           Some (if p < 3 then [e, e] else [e]) \<and>
         map_option pc
           (run_E (start_E n)
              (three_writes e t0 p @ [Raw_Event e t3 t3] @ (if p < 3 then [Proceed t3] else []))) =
           Some AtRecv \<and>
         map_option forwarded_W (run_W (start_W n) (three_writes e t0 p)) = Some [e] \<and>
         map_option forwarded_W
           (run_W (start_W n)
              (three_writes e t0 p @ [Raw_Event e t3 t3] @ (if p < 3 then [Proceed t3] else []))) =
           Some (if p < 3 then [e, e] else [e]) \<and>
         map_option pc_W
           (run_W (start_W n)
              (three_writes e t0 p @ [Raw_Event e t3 t3] @ (if p < 3 then [Proceed t3] else []))) =
           Some AtRecv"
  unfolding three_writes_E [OF assms(1-3)] three_writes_W [OF assms(1-3)]
    fourth_write_E [OF assms] fourth_write_W [OF assms]
  by (simp add: forwarded_E_def forwarded_W_def start_E_def start_W_def)

theorem coalescing_then_debounce_expiry_witness:
  "filepath_Base (Name ex_write) = ''0.log'' \<and> Op ex_write = Write \<and>
   zeroTime + waitDuration \<le> unixEpoch \<and>
   unixEpoch + waitDuration \<le> unixEpoch + 170 * Millisecond \<and>
   map_option forwarded_E (run_E (start_E ''0.log'') (three_writes ex_write unixEpoch 1)) =
     Some [ex_write] \<and>
   map_option forwarded_E
     (run_E (start_E ''0.log'')
        (three_writes ex_write unixEpoch 1 @
         [Raw_Event ex_write (unixEpoch + 170 * Millisecond) (unixEpoch + 170 * Millisecond),
          Proceed (unixEpoch + 170 * Millisecond)])) =
     Some [ex_write, ex_write] \<and>
   map_option forwarded_W
     (run_W (start_W ''0.log'')
        (three_writes ex_write unixEpoch 1 @
         [Raw_Event ex_write (unixEpoch + 170 * Millisecond) (unixEpoch + 170 * Millisecond),
          Proceed (unixEpoch + 170 * Millisecond)])) =
     Some [ex_write, ex_write]"
  using coalescing_then_debounce_expiry
    [where e = ex_write and n = "''0.log''" and ?t0.0 = unixEpoch
       and ?t3.0 = "unixEpoch + 170 * Millisecond" and p = 1]
  by (simp add: filepath_Base_def IsPathSeparator_def zeroTime_def waitDuration_def
        Millisecond_def unixEpoch_def Second_def)

section \<open>The output queues\<close>

text \<open>
  C5, as stated, fails: \<^verbatim>\<open>newDedupWriteEvents\<close> makes \<^verbatim>\<open>Errors\<close> with \<^verbatim>\<open>make(chan error)\<close>, an
  unbuffered channel, so its capacity is 0 and not 4.
\<close>

theorem error_queue_capacity_counterexample:
  "chan_cap (Errors (newDedupWriteEvents ''0.log'')) \<noteq> 4"
  by (simp add: newDedupWriteEvents_def make_chan_def)

text \<open>
  C5, amended. The output event queue of either variant is made with capacity 4 and in
  every reachable state it has capacity 4 and holds at most 4 events. The error queue
  of \<^verbatim>\<open>dedupWriteEvents\<close> is unbuffered: its capacity is 0 and it never holds a value
  (\<^verbatim>\<open>dedupWriteEventsWatcher\<close> has no error queue).
\<close>

theorem output_queue_bounds:
  "chan_cap (Events (newDedupWriteEvents n)) = 4 \<and>
   chan_cap (Errors (newDedupWriteEvents n)) = 0 \<and>
   chan_cap (Events_W (newDedupWriteEventsWatcher n)) = 4 \<and>
   (run_E (start_E n) as = Some s \<longrightarrow>
      chan_cap (Events (de s)) = 4 \<and> chan_len (Events (de s)) \<le> 4 \<and>
      chan_cap (Errors (de s)) = 0 \<and> chan_len (Errors (de s)) = 0) \<and>
   (run_W (start_W n) bs = Some w \<longrightarrow>
      chan_cap (Events_W (de_W w)) = 4 \<and> chan_len (Events_W (de_W w)) \<le> 4)"
proof -
  have "chan_cap (Events (de s)) = 4 \<and> chan_len (Events (de s)) \<le> 4 \<and>
      chan_cap (Errors (de s)) = 0 \<and> chan_len (Errors (de s)) = 0"
    if "run_E (start_E n) as = Some s"
    using reachable_E [OF that] by (simp add: inv_E_def chan_len_def)
  moreover
  have "chan_cap (Events_W (de_W w)) = 4 \<and> chan_len (Events_W (de_W w)) \<le> 4"
    if "run_W (start_W n) bs = Some w"
    using reachable_W [OF that] by (simp add: inv_W_def chan_len_def)
  ultimately show ?thesis
    by (simp add: newDedupWriteEvents_def newDedupWriteEventsWatcher_def make_chan_def)
qed

theorem output_queue_bounds_witness:
  "run_E (start_E ''0.log'')
     [Raw_Event ex_create 1 1, Proceed 2, Proceed 3, Raw_Event ex_remove 4 4, Proceed 5,
      Raw_Event ex_remove 6 6, Proceed 7, Raw_Event ex_remove 8 8] =
     Some ((start_E ''0.log'')
       \<lparr>de := (newDedupWriteEvents ''0.log'')
          \<lparr>Events := \<lparr>chan_buf = [ex_write, ex_create, ex_remove, ex_remove], chan_cap = 4,
                       chan_closed = False\<rparr>\<rparr>,
        lastAdd := 2, pc := AtSendOrig ex_remove\<rparr>) \<and>
   step_E ((start_E ''0.log'')
       \<lparr>de := (newDedupWriteEvents ''0.log'')
          \<lparr>Events := \<lparr>chan_buf = [ex_write, ex_create, ex_remove, ex_remove], chan_cap = 4,
                       chan_closed = False\<rparr>\<rparr>,
        lastAdd := 2, pc := AtSendOrig ex_remove\<rparr>) (Proceed 9) = None \<and>
   chan_len \<lparr>chan_buf = [ex_write, ex_create, ex_remove, ex_remove], chan_cap = 4,
             chan_closed = False\<rparr> \<le> 4 \<and>
   run_W (start_W ''0.log'') [Raw_Event ex_create 1 1, Proceed 2, Proceed 3] =
     Some ((start_W ''0.log'')
       \<lparr>de_W := (newDedupWriteEventsWatcher ''0.log'')
          \<lparr>Events_W := \<lparr>chan_buf = [ex_write, ex_create], chan_cap = 4, chan_closed = False\<rparr>\<rparr>,
        lastAdd_W := 2\<rparr>) \<and>
   chan_len \<lparr>chan_buf = [ex_write, ex_create], chan_cap = 4, chan_closed = False\<rparr> \<le> 4"
  using output_queue_bounds
    [where n = "''0.log''"
       and as = "[Raw_Event ex_create 1 1, Proceed 2, Proceed 3, Raw_Event ex_remove 4 4,
                  Proceed 5, Raw_Event ex_remove 6 6, Proceed 7, Raw_Event ex_remove 8 8]"
       and s = "(start_E ''0.log'')
         \<lparr>de := (newDedupWriteEvents ''0.log'')
            \<lparr>Events := \<lparr>chan_buf = [ex_write, ex_create, ex_remove, ex_remove], chan_cap = 4,
                         chan_closed = False\<rparr>\<rparr>,
          lastAdd := 2, pc := AtSendOrig ex_remove\<rparr>"
       and bs = "[Raw_Event ex_create 1 1, Proceed 2, Proceed 3]"
       and w = "(start_W ''0.log'')
         \<lparr>de_W := (newDedupWriteEventsWatcher ''0.log'')
            \<lparr>Events_W := \<lparr>chan_buf = [ex_write, ex_create], chan_cap = 4, chan_closed = False\<rparr>\<rparr>,
          lastAdd_W := 2\<rparr>"]
  by (simp add: eval_defs)

section \<open>Errors of the raw source\<close>

lemma error_recv_E:
  assumes "inv_E n s" "pc s = AtRecv"
  shows "step_E s (Raw_Error err) = Some (s\<lparr>pc := AtSendErr err\<rparr>)"
    and "run_E s [Raw_Error err, Consumer_Errors] = Some (s\<lparr>read_errors := read_errors s @ [err]\<rparr>)"
  using assms unfolding inv_E_def
  by (auto simp add: step_E_defs chan_defs intro!: state_E.equality)

lemma error_pending_E:
  assumes "inv_E n s" "pc s = AtSendErr err" "step_E s a = Some s'" "pc s' \<noteq> AtSendErr err"
  shows "a = Consumer_Errors \<and> s' = s\<lparr>pc := AtRecv, read_errors := read_errors s @ [err]\<rparr>"
  using assms unfolding inv_E_def
  by (cases a) (auto simp add: step_E_defs chan_defs split: if_splits list.splits)

lemma leaves_loop_E:
  assumes "inv_E n s" "in_loop (pc s)" "step_E s a = Some s'" "\<not> in_loop (pc s')"
  shows "a = Raw_Closed"
proof (cases "pc s")
  case AtRecv
  with assms show ?thesis
    unfolding inv_E_def
    by (cases a)
       (auto simp add: step_E_defs chan_defs split: if_splits list.splits prod.splits
          dest!: onEvent_cases)
next
  case (AtSendErr err)
  with assms show ?thesis
    unfolding inv_E_def
    by (cases a) (auto simp add: step_E_defs chan_defs split: if_splits list.splits)
next
  case (AtSendSynth e)
  with assms show ?thesis
    unfolding inv_E_def
    by (cases a) (auto simp add: step_E_defs chan_defs split: if_splits list.splits)
next
  case (AtSendOrig e)
  with assms show ?thesis
    unfolding inv_E_def
    by (cases a) (auto simp add: step_E_defs chan_defs split: if_splits list.splits)
qed (use assms in simp_all)

text \<open>
  C6. In every reachable state of \<^verbatim>\<open>dedupWriteEvents\<close> in which the loop takes an error
  from the raw source, it goes to the send of that same value on \<^verbatim>\<open>Errors\<close>, whatever the
  value and the state are; the consumer's receive gets exactly that value and the loop
  is back at its \<^verbatim>\<open>select\<close>, everything else unchanged. While the send is pending, the
  only step that moves the loop on is that receive. The loop leaves its \<^verbatim>\<open>for\<close> only by
  the step that finds the raw event channel closed.
\<close>

theorem errors_relayed_loop_continues:
  assumes "run_E (start_E n) as = Some s"
  shows "(pc s = AtRecv \<longrightarrow>
            step_E s (Raw_Error err) = Some (s\<lparr>pc := AtSendErr err\<rparr>) \<and>
            run_E s [Raw_Error err, Consumer_Errors] =
              Some (s\<lparr>read_errors := read_errors s @ [err]\<rparr>)) \<and>
         (pc s = AtSendErr err \<and> step_E s a = Some s' \<and> pc s' \<noteq> AtSendErr err \<longrightarrow>
            a = Consumer_Errors \<and>
            s' = s\<lparr>pc := AtRecv, read_errors := read_errors s @ [err]\<rparr>) \<and>
         (in_loop (pc s) \<and> step_E s a = Some s' \<and> \<not> in_loop (pc s') \<longrightarrow> a = Raw_Closed)"
  using error_recv_E [OF reachable_E [OF assms]] error_pending_E [OF reachable_E [OF assms]]
    leaves_loop_E [OF reachable_E [OF assms]]
  by blast

theorem errors_relayed_loop_continues_witness:
  "run_E (start_E ''0.log'') [Raw_Event ex_remove 1 1, Proceed 2] =
     Some ((start_E ''0.log'')
       \<lparr>de := (newDedupWriteEvents ''0.log'')
          \<lparr>Events := \<lparr>chan_buf = [ex_remove], chan_cap = 4, chan_closed = False\<rparr>\<rparr>\<rparr>) \<and>
   run_E ((start_E ''0.log'')
       \<lparr>de := (newDedupWriteEvents ''0.log'')
          \<lparr>Events := \<lparr>chan_buf = [ex_remove], chan_cap = 4, chan_closed = False\<rparr>\<rparr>\<rparr>)
     [Raw_Error (Err ''inotify: queue overflow''), Consumer_Errors] =
     Some ((start_E ''0.log'')
       \<lparr>de := (newDedupWriteEvents ''0.log'')
          \<lparr>Events := \<lparr>chan_buf = [ex_remove], chan_cap = 4, chan_closed = False\<rparr>\<rparr>,
        read_errors := [Err ''inotify: queue overflow'']\<rparr>) \<and>
   step_E ((start_E ''0.log'')
       \<lparr>de := (newDedupWriteEvents ''0.log'')
          \<lparr>Events := \<lparr>chan_buf = [ex_remove], chan_cap = 4, chan_closed = False\<rparr>\<rparr>\<rparr>)
     Raw_Closed =
     Some ((start_E ''0.log'')
       \<lparr>de := (newDedupWriteEvents ''0.log'')
          \<lparr>Events := \<lparr>chan_buf = [ex_remove], chan_cap = 4, chan_closed = True\<rparr>\<rparr>,
        pc := AtDrainEvents\<rparr>)"
  using errors_relayed_loop_continues
    [where n = "''0.log''" and as = "[Raw_Event ex_remove 1 1, Proceed 2]"
       and s = "(start_E ''0.log'')
         \<lparr>de := (newDedupWriteEvents ''0.log'')
            \<lparr>Events := \<lparr>chan_buf = [ex_remove], chan_cap = 4, chan_closed = False\<rparr>\<rparr>\<rparr>"
       and err = "Err ''inotify: queue overflow''" and a = Raw_Closed
       and s' = "(start_E ''0.log'')
         \<lparr>de := (newDedupWriteEvents ''0.log'')
            \<lparr>Events := \<lparr>chan_buf = [ex_remove], chan_cap = 4, chan_closed = True\<rparr>\<rparr>,
          pc := AtDrainEvents\<rparr>"]
  by (simp add: eval_defs)

section \<open>Shutdown\<close>













end
